theory Spec2Isabelle
  imports Main "HOL-Library.Multiset"
begin

section \<open>Values\<close>

text \<open>
  A Python \<open>str\<close> is a sequence of Unicode code points, so it is modelled as a list of
  code points; \<open>ascii\<close> reads an ASCII literal as such a string. The three priority
  strings of \<open>main.py\<close> are one code point each: U+9AD8 (high), U+4E2D (medium) and
  U+4F4E (low).
\<close>

type_synonym str = "nat list"

definition ascii :: "string \<Rightarrow> str" where
  "ascii cs = map of_char cs"

definition prio_high :: str where
  "prio_high = [39640]"

definition prio_mid :: str where
  "prio_mid = [20013]"

definition prio_low :: str where
  "prio_low = [20302]"

text \<open>
  What \<open>json.load\<close> returns for a well-formed text: \<open>None\<close>, a \<open>bool\<close>, an \<open>int\<close>, a
  \<open>str\<close>, a \<open>list\<close> or a \<open>dict\<close> with string keys, in the order of the text. Numbers
  with a fraction or an exponent (Python floats) are not represented.
\<close>

datatype json =
    JNull
  | JBool bool
  | JInt int
  | JStr str
  | JArr "json list"
  | JObj "(str \<times> json) list"

text \<open>
  The file behind the store: missing, present but failing to open or read (\<open>IOError\<close>),
  holding a text that is not JSON (\<open>json.JSONDecodeError\<close>), or holding the text of a
  JSON value. A file is taken to be UTF-8 text, and the strings of a store to be strings
  that UTF-8 can encode.
\<close>

datatype file_state = Absent | Unreadable | NotJson | Doc json

datatype error = KeyError | TypeError | ZeroDivisionError

text \<open>The exceptions \<open>load_tasks\<close> catches, as they appear in its report.\<close>

datatype caught = JSONDecodeError | IOError

section \<open>Tasks and the store\<close>

text \<open>
  A task is the dictionary built by \<open>add_task\<close>, with its five keys as fields. The
  priority is a string, as in the source: nothing in the task itself restricts it to the
  three priority strings.
\<close>

record task =
  task_id :: int
  title :: str
  priority :: str
  completed :: bool
  created_at :: str

text \<open>One constructor for each \<open>print\<close> of the store's methods and of the menu.\<close>

datatype msg =
    MsgLoaded nat
  | MsgLoadFailed caught
  | MsgSaved
  | MsgSaveFailed
  | MsgAdded str
  | MsgNoTasks
  | MsgListTop
  | MsgListTitle
  | MsgListRule
  | MsgRow task
  | MsgListBottom
  | MsgCompleted str
  | MsgDeleted str
  | MsgNotFound int
  | MsgTitleEmpty
  | MsgBadPriority

text \<open>
  \<open>tasks_list\<close> and \<open>tasks_dict\<close> hold references to the same dictionaries. The task
  objects therefore live in \<open>heap\<close>, an object is named by its position there, and the
  list and the dictionary hold positions. \<open>disk\<close> is the JSON file of the store.
\<close>

record app =
  heap :: "task list"
  tasks_list :: "nat list"
  tasks_dict :: "int \<rightharpoonup> nat"
  next_id :: int
  disk :: file_state

definition deref :: "app \<Rightarrow> nat \<Rightarrow> task" where
  "deref s a = heap s ! a"

text \<open>The tasks in list order, and the task a key of the dictionary leads to.\<close>

definition ordered_tasks :: "app \<Rightarrow> task list" where
  "ordered_tasks s = map (deref s) (tasks_list s)"

definition indexed :: "app \<Rightarrow> int \<Rightarrow> task option" where
  "indexed s k = map_option (deref s) (tasks_dict s k)"

section \<open>Saving\<close>

definition key_id :: str where
  "key_id = ascii ''id''"

definition key_title :: str where
  "key_title = ascii ''title''"

definition key_priority :: str where
  "key_priority = ascii ''priority''"

definition key_completed :: str where
  "key_completed = ascii ''completed''"

definition key_created_at :: str where
  "key_created_at = ascii ''created_at''"

definition to_json :: "task \<Rightarrow> json" where
  "to_json t = JObj
     [(key_id, JInt (task_id t)),
      (key_title, JStr (title t)),
      (key_priority, JStr (priority t)),
      (key_completed, JBool (completed t)),
      (key_created_at, JStr (created_at t))]"

text \<open>
  \<open>save_tasks\<close>: \<open>json.dump\<close> of \<open>tasks_list\<close> into the file opened for writing. The
  argument \<open>wr\<close> says whether the file can be opened for writing; when it cannot, the
  \<open>IOError\<close> is caught and reported, and the file is as it was.
\<close>

definition save_tasks :: "bool \<Rightarrow> app \<Rightarrow> app \<times> msg list" where
  "save_tasks wr s =
     (if wr then (s\<lparr>disk := Doc (JArr (map to_json (ordered_tasks s)))\<rparr>, [MsgSaved])
      else (s, [MsgSaveFailed]))"

section \<open>Adding, finding, completing and deleting\<close>

text \<open>
  \<open>add_task\<close>: the priority is optional (\<open>None\<close> is the default argument, medium), \<open>now\<close>
  is the formatted time of the call. The new dictionary is a new object. The method
  returns the task, here its reference.
\<close>

definition add_task :: "bool \<Rightarrow> str \<Rightarrow> str option \<Rightarrow> str \<Rightarrow> app \<Rightarrow> nat \<times> app \<times> msg list" where
  "add_task wr ttl prio now s =
     (let t = \<lparr>task_id = next_id s, title = ttl,
               priority = (case prio of None \<Rightarrow> prio_mid | Some p \<Rightarrow> p),
               completed = False, created_at = now\<rparr>;
          a = length (heap s);
          s1 = s\<lparr>heap := heap s @ [t],
                 tasks_list := tasks_list s @ [a],
                 tasks_dict := (tasks_dict s)(next_id s \<mapsto> a),
                 next_id := next_id s + 1\<rparr>;
          (s2, out) = save_tasks wr s1
      in (a, s2, out @ [MsgAdded ttl]))"

definition find_task_by_id :: "app \<Rightarrow> int \<Rightarrow> nat option" where
  "find_task_by_id s k = tasks_dict s k"

text \<open>
  \<open>complete_task\<close> writes through the reference found in the dictionary. A task
  dictionary has five keys, so \<open>if task:\<close> only asks whether the lookup found one.
\<close>

definition complete_task :: "bool \<Rightarrow> int \<Rightarrow> app \<Rightarrow> app \<times> msg list" where
  "complete_task wr k s =
     (case find_task_by_id s k of
        Some a \<Rightarrow>
          (let s1 = s\<lparr>heap := (heap s)[a := (heap s ! a)\<lparr>completed := True\<rparr>]\<rparr>;
               (s2, out) = save_tasks wr s1
           in (s2, out @ [MsgCompleted (title (deref s2 a))]))
      | None \<Rightarrow> (s, [MsgNotFound k]))"

definition delete_task :: "bool \<Rightarrow> int \<Rightarrow> app \<Rightarrow> app \<times> msg list" where
  "delete_task wr k s =
     (case tasks_dict s k of
        Some a \<Rightarrow>
          (let s1 = s\<lparr>tasks_dict := (tasks_dict s)(k := None),
                      tasks_list := filter (\<lambda>b. task_id (deref s b) \<noteq> k) (tasks_list s)\<rparr>;
               (s2, out) = save_tasks wr s1
           in (s2, MsgDeleted (title (deref s a)) # out))
      | None \<Rightarrow> (s, [MsgNotFound k]))"

section \<open>Listing, sorting and statistics\<close>

definition priority_order :: "str \<rightharpoonup> nat" where
  "priority_order = [prio_high \<mapsto> 1, prio_mid \<mapsto> 2, prio_low \<mapsto> 3]"

text \<open>The three emoji of a printed row: U+1F534, U+1F7E1 and U+1F7E2.\<close>

definition priority_emoji :: "str \<rightharpoonup> nat" where
  "priority_emoji = [prio_high \<mapsto> 128308, prio_mid \<mapsto> 128993, prio_low \<mapsto> 128994]"

text \<open>
  \<open>sorted(tasks, key=lambda task: priority_order[task["priority"]])\<close>: the keys of all
  elements are computed first, and a priority that is not a key of \<open>priority_order\<close>
  raises \<open>KeyError\<close>; then the elements are sorted by their keys, stably.
\<close>

definition sorted_by_priority :: "task list \<Rightarrow> error + task list" where
  "sorted_by_priority ts =
     (if list_all (\<lambda>t. priority_order (priority t) \<noteq> None) ts
      then Inr (sort_key (\<lambda>t. the (priority_order (priority t))) ts)
      else Inl KeyError)"

text \<open>The \<open>print\<close> of one row, with its lookup in \<open>priority_emoji\<close>.\<close>

definition print_row :: "task \<Rightarrow> error + msg" where
  "print_row t =
     (case priority_emoji (priority t) of None \<Rightarrow> Inl KeyError | Some e \<Rightarrow> Inr (MsgRow t))"

fun print_rows :: "task list \<Rightarrow> error + msg list" where
  "print_rows [] = Inr []"
| "print_rows (t # ts) =
     (case print_row t of
        Inl e \<Rightarrow> Inl e
      | Inr m \<Rightarrow> (case print_rows ts of Inl e \<Rightarrow> Inl e | Inr ms \<Rightarrow> Inr (m # ms)))"

text \<open>
  \<open>list_tasks\<close> prints and returns \<open>None\<close>; its value here is what it prints, or the
  exception that leaves it. \<open>if filter_by:\<close> holds for a string that is not empty.
\<close>

definition list_tasks :: "str option \<Rightarrow> app \<Rightarrow> error + msg list" where
  "list_tasks filter_by s =
     (if tasks_list s = [] then Inr [MsgNoTasks]
      else
        (let tasks_to_show =
               (case filter_by of
                  None \<Rightarrow> ordered_tasks s
                | Some p \<Rightarrow>
                    if p \<noteq> [] then filter (\<lambda>t. priority t = p) (ordered_tasks s)
                    else ordered_tasks s)
         in case sorted_by_priority tasks_to_show of
              Inl e \<Rightarrow> Inl e
            | Inr sorted_tasks \<Rightarrow>
                (case print_rows sorted_tasks of
                   Inl e \<Rightarrow> Inl e
                 | Inr rows \<Rightarrow>
                     Inr ([MsgListTop, MsgListTitle, MsgListRule] @ rows @ [MsgListBottom]))))"

definition sort_by_priority :: "app \<Rightarrow> error + task list" where
  "sort_by_priority s = sorted_by_priority (ordered_tasks s)"

text \<open>The tasks of the rows among printed lines, in the order printed.\<close>

fun rows_of :: "msg list \<Rightarrow> task list" where
  "rows_of [] = []"
| "rows_of (MsgRow t # ms) = t # rows_of ms"
| "rows_of (m # ms) = rows_of ms"

text \<open>
  The completion rate is the integer \<open>0\<close> or a Python float. Float arithmetic is not
  modelled: the type of floats is a parameter, and so are the quotient of two integers
  (\<open>fdiv\<close>) and the product of a float and an integer (\<open>fmul\<close>). Dividing by zero
  raises, as in Python.
\<close>

datatype 'f number = PyInt int | PyFloat 'f

record 'f stats =
  total :: int
  completed_n :: int
  pending :: int
  completion_rate :: "'f number"

definition truediv :: "(int \<Rightarrow> int \<Rightarrow> 'f) \<Rightarrow> int \<Rightarrow> int \<Rightarrow> error + 'f" where
  "truediv fdiv a b = (if b = 0 then Inl ZeroDivisionError else Inr (fdiv a b))"

definition get_statistics ::
    "(int \<Rightarrow> int \<Rightarrow> 'f) \<Rightarrow> ('f \<Rightarrow> int \<Rightarrow> 'f) \<Rightarrow> app \<Rightarrow> error + 'f stats" where
  "get_statistics fdiv fmul s =
     (let n = int (length (tasks_list s));
          c = int (length (filter completed (ordered_tasks s)));
          p = n - c
      in case (if n > 0
               then (case truediv fdiv c n of
                       Inl e \<Rightarrow> Inl e
                     | Inr q \<Rightarrow> Inr (PyFloat (fmul q 100)))
               else Inr (PyInt 0)) of
           Inl e \<Rightarrow> Inl e
         | Inr r \<Rightarrow> Inr \<lparr>total = n, completed_n = c, pending = p, completion_rate = r\<rparr>)"

section \<open>Loading\<close>

text \<open>A key of a loaded dictionary: where the text repeats a key, the last value stays.\<close>

definition obj_get :: "(str \<times> json) list \<Rightarrow> str \<Rightarrow> json option" where
  "obj_get kvs k = map_of (rev kvs) k"

text \<open>
  \<open>self.tasks_dict[task["id"]] = task\<close> for one element of the loaded list: only a
  dictionary can be indexed by \<open>"id"\<close>, the key must be there, and its value must be
  hashable to become a key of \<open>tasks_dict\<close>.
\<close>

definition id_of_item :: "json \<Rightarrow> error + json" where
  "id_of_item x =
     (case x of
        JObj kvs \<Rightarrow>
          (case obj_get kvs key_id of
             None \<Rightarrow> Inl KeyError
           | Some (JArr _) \<Rightarrow> Inl TypeError
           | Some (JObj _) \<Rightarrow> Inl TypeError
           | Some v \<Rightarrow> Inr v)
      | _ \<Rightarrow> Inl TypeError)"

fun ids_of_items :: "json list \<Rightarrow> error + json list" where
  "ids_of_items [] = Inr []"
| "ids_of_items (x # xs) =
     (case id_of_item x of
        Inl e \<Rightarrow> Inl e
      | Inr v \<Rightarrow> (case ids_of_items xs of Inl e \<Rightarrow> Inl e | Inr vs \<Rightarrow> Inr (v # vs)))"

text \<open>
  \<open>max(task["id"] for task in self.tasks_list) + 1\<close> on a list that is not empty: the
  ids must be numbers (a \<open>bool\<close> counts as 0 or 1); a string or \<open>None\<close> among them
  raises \<open>TypeError\<close>, in a comparison or in the addition.
\<close>

definition num_of :: "json \<Rightarrow> int option" where
  "num_of v = (case v of JInt i \<Rightarrow> Some i | JBool b \<Rightarrow> Some (if b then 1 else 0) | _ \<Rightarrow> None)"

definition max_plus_one :: "json list \<Rightarrow> error + int" where
  "max_plus_one vs =
     (if list_all (\<lambda>v. num_of v \<noteq> None) vs
      then Inr (fold max (map (the \<circ> num_of) (tl vs)) (the (num_of (hd vs))) + 1)
      else Inl TypeError)"

text \<open>
  A loaded dictionary is a task of the record type when it has the five keys of
  \<open>add_task\<close> and no other, with an integer, three strings and a boolean as values.
\<close>

definition as_task :: "json \<Rightarrow> task option" where
  "as_task x =
     (case x of
        JObj kvs \<Rightarrow>
          (case obj_get kvs key_id of
             Some (JInt i) \<Rightarrow>
               (case obj_get kvs key_title of
                  Some (JStr t) \<Rightarrow>
                    (case obj_get kvs key_priority of
                       Some (JStr p) \<Rightarrow>
                         (case obj_get kvs key_completed of
                            Some (JBool c) \<Rightarrow>
                              (case obj_get kvs key_created_at of
                                 Some (JStr d) \<Rightarrow>
                                   if set (map fst kvs) \<subseteq>
                                      {key_id, key_title, key_priority, key_completed,
                                       key_created_at}
                                   then Some \<lparr>task_id = i, title = t, priority = p,
                                               completed = c, created_at = d\<rparr>
                                   else None
                               | _ \<Rightarrow> None)
                          | _ \<Rightarrow> None)
                     | _ \<Rightarrow> None)
                | _ \<Rightarrow> None)
           | _ \<Rightarrow> None)
      | _ \<Rightarrow> None)"

fun as_tasks :: "json list \<Rightarrow> task list option" where
  "as_tasks [] = Some []"
| "as_tasks (x # xs) =
     (case as_task x of
        None \<Rightarrow> None
      | Some t \<Rightarrow> (case as_tasks xs of None \<Rightarrow> None | Some ts \<Rightarrow> Some (t # ts)))"

text \<open>
  How a call ends: it returns, an exception leaves it, or it returns with a value in
  \<open>tasks_list\<close> that is not a list of tasks of the record type (a dictionary with a
  missing or additional key or a value of another type, or an empty string or an empty
  dictionary in place of the list), which the store of this theory cannot hold.
\<close>

datatype 'a outcome = Returns 'a | Raises error | Untyped

text \<open>The loop that rebuilds the dictionary: a later task with the same id wins.\<close>

fun index_tasks :: "(int \<rightharpoonup> nat) \<Rightarrow> task list \<Rightarrow> nat list \<Rightarrow> (int \<rightharpoonup> nat)" where
  "index_tasks d (t # ts) (a # as) = index_tasks (d(task_id t \<mapsto> a)) ts as"
| "index_tasks d _ _ = d"

text \<open>
  \<open>load_tasks\<close>. The loaded dictionaries are new objects. The \<open>except\<close> clause catches
  \<open>json.JSONDecodeError\<close> and \<open>IOError\<close> only.
\<close>

definition load_tasks :: "app \<Rightarrow> (app \<times> msg list) outcome" where
  "load_tasks s =
     (case disk s of
        Absent \<Rightarrow> Returns (s, [])
      | Unreadable \<Rightarrow>
          Returns (s\<lparr>tasks_list := [], tasks_dict := Map.empty\<rparr>, [MsgLoadFailed IOError])
      | NotJson \<Rightarrow>
          Returns (s\<lparr>tasks_list := [], tasks_dict := Map.empty\<rparr>,
                   [MsgLoadFailed JSONDecodeError])
      | Doc j \<Rightarrow>
          (case j of
             JArr xs \<Rightarrow>
               (case ids_of_items xs of
                  Inl e \<Rightarrow> Raises e
                | Inr vs \<Rightarrow>
                    (case (if xs \<noteq> [] then max_plus_one vs else Inr (next_id s)) of
                       Inl e \<Rightarrow> Raises e
                     | Inr n \<Rightarrow>
                         (case as_tasks xs of
                            None \<Rightarrow> Untyped
                          | Some ts \<Rightarrow>
                              (let as = [length (heap s) ..< length (heap s) + length ts]
                               in Returns
                                    (s\<lparr>heap := heap s @ ts,
                                       tasks_list := as,
                                       tasks_dict := index_tasks (tasks_dict s) ts as,
                                       next_id := n\<rparr>,
                                     [MsgLoaded (length ts)])))))
           | JStr cs \<Rightarrow> if cs = [] then Untyped else Raises TypeError
           | JObj kvs \<Rightarrow> if kvs = [] then Untyped else Raises TypeError
           | _ \<Rightarrow> Raises TypeError))"

text \<open>\<open>__init__\<close>, for the file found on disk.\<close>

definition init :: "file_state \<Rightarrow> (app \<times> msg list) outcome" where
  "init d = load_tasks
     \<lparr>heap = [], tasks_list = [], tasks_dict = Map.empty, next_id = 1, disk = d\<rparr>"

section \<open>The menu's first choice\<close>

text \<open>
  The characters \<open>str.strip()\<close> removes from both ends: those for which \<open>str.isspace\<close>
  holds.
\<close>

definition isspace :: "nat \<Rightarrow> bool" where
  "isspace c \<longleftrightarrow>
     (9 \<le> c \<and> c \<le> 13) \<or> (28 \<le> c \<and> c \<le> 32) \<or> c = 133 \<or> c = 160 \<or> c = 5760 \<or>
     (8192 \<le> c \<and> c \<le> 8202) \<or> c = 8232 \<or> c = 8233 \<or> c = 8239 \<or> c = 8287 \<or> c = 12288"

definition strip :: "str \<Rightarrow> str" where
  "strip cs = rev (dropWhile isspace (rev (dropWhile isspace cs)))"

text \<open>
  Choice 1 of \<open>run\<close>: the two lines read from the user, the checks, and the call of
  \<open>add_task\<close>. The second line is read only when the title passes.
\<close>

definition menu_add :: "bool \<Rightarrow> str \<Rightarrow> str \<Rightarrow> str \<Rightarrow> app \<Rightarrow> app \<times> msg list" where
  "menu_add wr line1 line2 now s =
     (let ttl = strip line1
      in if ttl = [] then (s, [MsgTitleEmpty])
         else
           (let prio = (if strip line2 = [] then prio_mid else strip line2)
            in if prio \<notin> set [prio_high, prio_mid, prio_low] then (s, [MsgBadPriority])
               else (let (a, s', out) = add_task wr ttl (Some prio) now s in (s', out))))"

section \<open>Sequences of operations\<close>

datatype op =
    Add bool str "str option" str
  | Complete bool int
  | Delete bool int

text \<open>One operation: the store after it and, for \<open>Add\<close>, the id of the task returned.\<close>

fun step :: "op \<Rightarrow> app \<Rightarrow> app \<times> int option" where
  "step (Add wr ttl prio now) s =
     (let (a, s', out) = add_task wr ttl prio now s in (s', Some (task_id (deref s' a))))"
| "step (Complete wr k) s = (fst (complete_task wr k s), None)"
| "step (Delete wr k) s = (fst (delete_task wr k s), None)"

text \<open>A sequence of operations: the final store and the ids returned, in order.\<close>

fun steps :: "op list \<Rightarrow> app \<Rightarrow> app \<times> int list" where
  "steps [] s = (s, [])"
| "steps (x # xs) s =
     (let (s1, r) = step x s; (s2, ids) = steps xs s1
      in (s2, (case r of None \<Rightarrow> ids | Some i \<Rightarrow> i # ids)))"

section \<open>Invariants of the store\<close>

text \<open>Every reference held by the list or the dictionary is an object of the heap.\<close>

definition refs_ok :: "app \<Rightarrow> bool" where
  "refs_ok s \<longleftrightarrow>
     list_all (\<lambda>a. a < length (heap s)) (tasks_list s) \<and>
     (\<forall>k a. tasks_dict s k = Some a \<longrightarrow> a < length (heap s))"

text \<open>The next id is greater than every id of the list.\<close>

definition ids_below :: "app \<Rightarrow> bool" where
  "ids_below s \<longleftrightarrow> list_all (\<lambda>t. task_id t < next_id s) (ordered_tasks s)"

text \<open>
  The two views agree: the ids of the list are the keys of the dictionary, no id is
  twice in the list, and a key leads to the object of the list that has this id.
\<close>

definition views_agree :: "app \<Rightarrow> bool" where
  "views_agree s \<longleftrightarrow>
     dom (tasks_dict s) = set (map task_id (ordered_tasks s)) \<and>
     distinct (map task_id (ordered_tasks s)) \<and>
     (\<forall>k a. tasks_dict s k = Some a \<longrightarrow> a \<in> set (tasks_list s) \<and> task_id (deref s a) = k)"

definition store_inv :: "app \<Rightarrow> bool" where
  "store_inv s \<longleftrightarrow> refs_ok s \<and> views_agree s \<and> ids_below s"

section \<open>Notions of the statements\<close>

text \<open>The three priorities the menu accepts, and the rank \<open>priority_order\<close> gives a task.\<close>

definition allowed :: "str \<Rightarrow> bool" where
  "allowed p \<longleftrightarrow> p = prio_high \<or> p = prio_mid \<or> p = prio_low"

definition rank :: "task \<Rightarrow> nat" where
  "rank t = the (priority_order (priority t))"

text \<open>The tasks a filter asks for: all of them, or those of the given priority.\<close>

definition selected :: "str option \<Rightarrow> app \<Rightarrow> task list" where
  "selected filter_by s =
     (case filter_by of
        None \<Rightarrow> ordered_tasks s
      | Some p \<Rightarrow> filter (\<lambda>t. priority t = p) (ordered_tasks s))"

definition titles_ok :: "app \<Rightarrow> bool" where
  "titles_ok s \<longleftrightarrow> list_all (\<lambda>t. title t \<noteq> []) (ordered_tasks s)"

text \<open>
  No task written to the file has an empty title; a store is \<open>clean\<close> when this holds of
  its file and none of its tasks has an empty title.
\<close>

definition saved_titles_ok :: "file_state \<Rightarrow> bool" where
  "saved_titles_ok d =
     (case d of
        Doc (JArr xs) \<Rightarrow>
          list_all (\<lambda>x. case x of
                            JObj kvs \<Rightarrow> obj_get kvs key_title \<noteq> Some (JStr [])
                          | _ \<Rightarrow> True) xs
      | _ \<Rightarrow> True)"

definition clean :: "app \<Rightarrow> bool" where
  "clean s \<longleftrightarrow> titles_ok s \<and> saved_titles_ok (disk s)"

section \<open>Example stores\<close>

definition ex_milk :: task where
  "ex_milk = \<lparr>task_id = 1, title = ascii ''Buy milk'', priority = prio_low,
              completed = False, created_at = ascii ''2025-01-01 10:00:00''\<rparr>"

definition ex_report :: task where
  "ex_report = \<lparr>task_id = 2, title = ascii ''Write report'', priority = prio_high,
                completed = True, created_at = ascii ''2025-01-01 10:00:01''\<rparr>"

definition ex_dentist :: task where
  "ex_dentist = \<lparr>task_id = 3, title = ascii ''Call dentist'', priority = prio_low,
                 completed = False, created_at = ascii ''2025-01-01 10:00:02''\<rparr>"

definition ex_store :: app where
  "ex_store = \<lparr>heap = [ex_milk, ex_report, ex_dentist], tasks_list = [0, 1, 2],
               tasks_dict = [1 \<mapsto> 0, 2 \<mapsto> 1, 3 \<mapsto> 2], next_id = 4, disk = Absent\<rparr>"

text \<open>A store with one task whose priority is none of the three, as a file can hold it.\<close>

definition ex_urgent :: task where
  "ex_urgent = \<lparr>task_id = 1, title = ascii ''Pay rent'', priority = ascii ''urgent'',
                completed = False, created_at = ascii ''2025-01-01 10:00:00''\<rparr>"

definition ex_odd :: app where
  "ex_odd = \<lparr>heap = [ex_urgent], tasks_list = [0], tasks_dict = [1 \<mapsto> 0],
             next_id = 2, disk = Absent\<rparr>"

definition ex_empty :: app where
  "ex_empty = \<lparr>heap = [], tasks_list = [], tasks_dict = Map.empty, next_id = 1,
               disk = Absent\<rparr>"

definition ex_ops :: "op list" where
  "ex_ops = [Add True (ascii ''Water plants'') None (ascii ''2025-01-02 09:00:00''),
             Delete True 4,
             Complete False 2,
             Add False (ascii ''Book flight'') (Some prio_high) (ascii ''2025-01-02 09:05:00'')]"

section \<open>Deleting an absent id\<close>

text \<open>
  C6. For every store and every id that is not a key of the id-indexed mapping,
  \<open>delete_task\<close> returns the store as it was (heap, ordered sequence, mapping, next id
  and file all unmodified) and prints only the "task does not exist" line with that id.
\<close>

theorem delete_task_absent:
  assumes "tasks_dict s k = None"
  shows "delete_task wr k s = (s, [MsgNotFound k])"
  using assms by (simp add: delete_task_def)

theorem delete_task_absent_witness:
  "tasks_dict ex_store 7 = None \<and> delete_task True 7 ex_store = (ex_store, [MsgNotFound 7])"
proof -
  have h: "tasks_dict ex_store 7 = None"
    by (simp add: ex_store_def)
  show ?thesis
    using h delete_task_absent [OF h, of True] by simp
qed

section \<open>Listing\<close>

lemma priority_order_None_iff: "priority_order p = None \<longleftrightarrow> \<not> allowed p"
  by (simp add: priority_order_def allowed_def)

lemma priority_emoji_None_iff: "priority_emoji p = None \<longleftrightarrow> \<not> allowed p"
  by (simp add: priority_emoji_def allowed_def)

lemma sorted_by_priority_allowed:
  "list_all (\<lambda>t. allowed (priority t)) ts \<Longrightarrow> sorted_by_priority ts = Inr (sort_key rank ts)"
  unfolding sorted_by_priority_def rank_def
  by (simp add: priority_order_None_iff)

lemma sorted_by_priority_not_allowed:
  "\<not> list_all (\<lambda>t. allowed (priority t)) ts \<Longrightarrow> sorted_by_priority ts = Inl KeyError"
  unfolding sorted_by_priority_def
  by (simp add: priority_order_None_iff)

lemma print_rows_allowed:
  "list_all (\<lambda>t. allowed (priority t)) ts \<Longrightarrow> print_rows ts = Inr (map MsgRow ts)"
  by (induction ts) (auto simp: print_row_def priority_emoji_None_iff split: option.splits)

lemma rows_of_append: "rows_of (xs @ ys) = rows_of xs @ rows_of ys"
  by (induction xs rule: rows_of.induct) simp_all

lemma rows_of_map_MsgRow: "rows_of (map MsgRow ts) = ts"
  by (induction ts) simp_all



lemma list_tasks_rows:
  assumes ok: "list_all (\<lambda>t. allowed (priority t)) (ordered_tasks s)"
    and f: "filter_by \<noteq> Some []"
  shows "\<exists>out. list_tasks filter_by s = Inr out \<and>
           rows_of out = sort_key rank (selected filter_by s)"
proof (cases "tasks_list s = []")
  case True
  then show ?thesis
    by (cases filter_by) (simp_all add: list_tasks_def selected_def ordered_tasks_def)
next
  case False
  have sel: "list_all (\<lambda>t. allowed (priority t)) (selected filter_by s)"
    using ok by (cases filter_by) (auto simp: selected_def list_all_iff)
  then have srt: "list_all (\<lambda>t. allowed (priority t)) (sort_key rank (selected filter_by s))"
    by (simp add: list_all_iff)
  have "list_tasks filter_by s =
      Inr ([MsgListTop, MsgListTitle, MsgListRule] @
           map MsgRow (sort_key rank (selected filter_by s)) @ [MsgListBottom])"
    using False f sorted_by_priority_allowed [OF sel] print_rows_allowed [OF srt]
    by (cases filter_by) (simp_all add: list_tasks_def selected_def)
  then show ?thesis
    by (simp add: rows_of_append rows_of_map_MsgRow)
qed

lemma list_tasks_empty_filter: "list_tasks (Some []) s = list_tasks None s"
  by (simp add: list_tasks_def)




section \<open>Listing and sorting a task of another priority\<close>

lemma sort_by_priority_KeyError_iff:
  "sort_by_priority s = Inl KeyError \<longleftrightarrow>
     \<not> list_all (\<lambda>t. allowed (priority t)) (ordered_tasks s)"
  by (cases "list_all (\<lambda>t. allowed (priority t)) (ordered_tasks s)")
     (simp_all add: sort_by_priority_def sorted_by_priority_allowed
        sorted_by_priority_not_allowed)

lemma list_tasks_unfiltered_KeyError_iff:
  "list_tasks None s = Inl KeyError \<longleftrightarrow>
     \<not> list_all (\<lambda>t. allowed (priority t)) (ordered_tasks s)"
proof (cases "list_all (\<lambda>t. allowed (priority t)) (ordered_tasks s)")
  case True
  then show ?thesis
    using list_tasks_rows [of s None] by auto
next
  case False
  then have "tasks_list s \<noteq> []"
    by (auto simp: ordered_tasks_def)
  then show ?thesis
    using False by (simp add: list_tasks_def sorted_by_priority_not_allowed)
qed

lemma list_tasks_filtered_KeyError_iff:
  assumes "p \<noteq> []"
  shows "list_tasks (Some p) s = Inl KeyError \<longleftrightarrow>
           \<not> allowed p \<and> p \<in> set (map priority (ordered_tasks s))"
proof (cases "list_all (\<lambda>t. allowed (priority t))
                (filter (\<lambda>t. priority t = p) (ordered_tasks s))")
  case True
  then have srt: "list_all (\<lambda>t. allowed (priority t))
      (sort_key rank (filter (\<lambda>t. priority t = p) (ordered_tasks s)))"
    by (simp add: list_all_iff)
  have "list_tasks (Some p) s \<noteq> Inl KeyError"
    using assms sorted_by_priority_allowed [OF True] print_rows_allowed [OF srt]
    by (simp add: list_tasks_def)
  moreover have "\<not> (\<not> allowed p \<and> p \<in> set (map priority (ordered_tasks s)))"
    using True by (auto simp: list_all_iff)
  ultimately show ?thesis by simp
next
  case False
  then have "tasks_list s \<noteq> []"
    by (auto simp: ordered_tasks_def)
  then have "list_tasks (Some p) s = Inl KeyError"
    using assms False by (simp add: list_tasks_def sorted_by_priority_not_allowed)
  moreover have "\<not> allowed p \<and> p \<in> set (map priority (ordered_tasks s))"
    using False by (auto simp: list_all_iff)
  ultimately show ?thesis by simp
qed

text \<open>
  C10. As stated the claim fails for \<open>list_tasks\<close> with a filter: the store holds a task
  whose priority is none of the three, and listing the high tasks prints the frame of an
  empty list and raises nothing, since the sort only sees the tasks the filter lets
  through.
\<close>

theorem list_tasks_filter_hides_counterexample:
  "ordered_tasks ex_odd = [ex_urgent] \<and> \<not> allowed (priority ex_urgent) \<and>
   list_tasks (Some prio_high) ex_odd =
     Inr [MsgListTop, MsgListTitle, MsgListRule, MsgListBottom]"
  by (simp add: list_tasks_def ex_odd_def ordered_tasks_def deref_def ex_urgent_def
      sorted_by_priority_def priority_order_def allowed_def prio_high_def prio_mid_def
      prio_low_def ascii_def)

text \<open>
  C10, amended. \<open>sort_by_priority\<close>, and \<open>list_tasks\<close> without a filter or with the
  empty string as filter, raise \<open>KeyError\<close> exactly when the store holds a task whose
  priority is none of the three. \<open>list_tasks\<close> with a filter that is not empty raises
  \<open>KeyError\<close> exactly when the filter itself is none of the three and is the priority
  of a task of the store.
\<close>

theorem invalid_priority_raises:
  "(sort_by_priority s = Inl KeyError \<longleftrightarrow>
      \<not> list_all (\<lambda>t. allowed (priority t)) (ordered_tasks s)) \<and>
   (list_tasks None s = Inl KeyError \<longleftrightarrow>
      \<not> list_all (\<lambda>t. allowed (priority t)) (ordered_tasks s)) \<and>
   (list_tasks (Some p) s = Inl KeyError \<longleftrightarrow>
      (if p = [] then \<not> list_all (\<lambda>t. allowed (priority t)) (ordered_tasks s)
       else \<not> allowed p \<and> p \<in> set (map priority (ordered_tasks s))))"
  using sort_by_priority_KeyError_iff [of s] list_tasks_unfiltered_KeyError_iff [of s]
    list_tasks_filtered_KeyError_iff [of p s] list_tasks_empty_filter [of s]
  by simp

theorem invalid_priority_raises_witness:
  "sort_by_priority ex_odd = Inl KeyError \<and> list_tasks None ex_odd = Inl KeyError \<and>
   list_tasks (Some (ascii ''urgent'')) ex_odd = Inl KeyError \<and>
   list_tasks (Some prio_mid) ex_odd \<noteq> Inl KeyError"
proof -
  have bad: "\<not> list_all (\<lambda>t. allowed (priority t)) (ordered_tasks ex_odd)"
    by (simp add: ex_odd_def ordered_tasks_def deref_def ex_urgent_def allowed_def
        prio_high_def prio_mid_def prio_low_def ascii_def)
  have u: "\<not> allowed (ascii ''urgent'')" "ascii ''urgent'' \<noteq> []"
    "ascii ''urgent'' \<in> set (map priority (ordered_tasks ex_odd))"
    by (simp_all add: ex_odd_def ordered_tasks_def deref_def ex_urgent_def allowed_def
        prio_high_def prio_mid_def prio_low_def ascii_def)
  have m: "allowed prio_mid" "prio_mid \<noteq> []"
    by (simp_all add: allowed_def prio_mid_def)
  show ?thesis
    using bad u m invalid_priority_raises [of ex_odd "ascii ''urgent''"]
      invalid_priority_raises [of ex_odd prio_mid]
    by simp
qed

section \<open>Statistics\<close>

text \<open>
  C8. For every store \<open>get_statistics\<close> returns, without raising: the total is the
  number of tasks, the completed count the number of tasks whose flag is set, the
  pending count their difference, and the completion rate the float product by 100 of
  the float quotient of completed count and total, or the integer 0 when there is no
  task. For a store without tasks the result is 0, 0, 0 and 0. (The two float operations
  are parameters: their rounding is not modelled.)
\<close>

theorem get_statistics_counts:
  "get_statistics fdiv fmul s =
     Inr \<lparr>total = int (length (ordered_tasks s)),
          completed_n = int (length (filter completed (ordered_tasks s))),
          pending = int (length (ordered_tasks s)) -
                    int (length (filter completed (ordered_tasks s))),
          completion_rate =
            (if ordered_tasks s = [] then PyInt 0
             else PyFloat (fmul (fdiv (int (length (filter completed (ordered_tasks s))))
                                      (int (length (ordered_tasks s)))) 100))\<rparr> \<and>
   get_statistics fdiv fmul (s\<lparr>tasks_list := []\<rparr>) =
     Inr \<lparr>total = 0, completed_n = 0, pending = 0, completion_rate = PyInt 0\<rparr>"
  by (simp add: get_statistics_def truediv_def ordered_tasks_def Let_def)

theorem get_statistics_counts_witness:
  "get_statistics (\<lambda>a b. (a, b)) (\<lambda>q k. (fst q * k, snd q)) ex_store =
     Inr \<lparr>total = 3, completed_n = 1, pending = 2,
          completion_rate = PyFloat (100, 3)\<rparr> \<and>
   get_statistics (\<lambda>a b. (a, b)) (\<lambda>q k. (fst q * k, snd q)) ex_empty =
     Inr \<lparr>total = 0, completed_n = 0, pending = 0, completion_rate = PyInt 0\<rparr>"
proof -
  have "ordered_tasks ex_store = [ex_milk, ex_report, ex_dentist]"
    by (simp add: ex_store_def ordered_tasks_def deref_def)
  moreover have "ordered_tasks ex_empty = []"
    by (simp add: ex_empty_def ordered_tasks_def)
  ultimately show ?thesis
    using get_statistics_counts [of "\<lambda>a b. (a, b)" "\<lambda>q k. (fst q * k, snd q)" ex_store]
      get_statistics_counts [of "\<lambda>a b. (a, b)" "\<lambda>q k. (fst q * k, snd q)" ex_empty]
    by (simp add: ex_milk_def ex_report_def ex_dentist_def)
qed

section \<open>What the operations change\<close>

lemma save_tasks_eq: "save_tasks wr s =
   (s\<lparr>disk := (if wr then Doc (JArr (map to_json (ordered_tasks s))) else disk s)\<rparr>,
    [if wr then MsgSaved else MsgSaveFailed])"
  by (simp add: save_tasks_def)

lemma deref_disk [simp]: "deref (s\<lparr>disk := d\<rparr>) = deref s"
  by (simp add: deref_def fun_eq_iff)

lemma ordered_tasks_disk [simp]: "ordered_tasks (s\<lparr>disk := d\<rparr>) = ordered_tasks s"
  by (simp add: ordered_tasks_def)

lemma indexed_disk [simp]: "indexed (s\<lparr>disk := d\<rparr>) = indexed s"
  by (simp add: indexed_def fun_eq_iff)

lemma complete_task_found:
  assumes "tasks_dict s k = Some a"
  shows "complete_task wr k s =
     (s\<lparr>heap := (heap s)[a := (heap s ! a)\<lparr>completed := True\<rparr>],
        disk := (if wr then Doc (JArr (map to_json (ordered_tasks
                   (s\<lparr>heap := (heap s)[a := (heap s ! a)\<lparr>completed := True\<rparr>]\<rparr>)))) else disk s)\<rparr>,
      [if wr then MsgSaved else MsgSaveFailed,
       MsgCompleted (title ((heap s)[a := (heap s ! a)\<lparr>completed := True\<rparr>] ! a))])"
  using assms
  by (simp add: complete_task_def find_task_by_id_def save_tasks_eq deref_def Let_def)

lemma delete_task_not_found:
  "tasks_dict s k = None \<Longrightarrow> delete_task wr k s = (s, [MsgNotFound k])"
  by (simp add: delete_task_def)

lemma complete_task_absent:
  "tasks_dict s k = None \<Longrightarrow> complete_task wr k s = (s, [MsgNotFound k])"
  by (simp add: complete_task_def find_task_by_id_def)

lemma add_task_eq:
  "add_task wr ttl prio now s =
     (length (heap s),
      s\<lparr>heap := heap s @ [\<lparr>task_id = next_id s, title = ttl,
                            priority = (case prio of None \<Rightarrow> prio_mid | Some p \<Rightarrow> p),
                            completed = False, created_at = now\<rparr>],
        tasks_list := tasks_list s @ [length (heap s)],
        tasks_dict := (tasks_dict s)(next_id s \<mapsto> length (heap s)),
        next_id := next_id s + 1,
        disk := (if wr then Doc (JArr (map to_json (ordered_tasks
                   (s\<lparr>heap := heap s @ [\<lparr>task_id = next_id s, title = ttl,
                            priority = (case prio of None \<Rightarrow> prio_mid | Some p \<Rightarrow> p),
                            completed = False, created_at = now\<rparr>],
                      tasks_list := tasks_list s @ [length (heap s)]\<rparr>)))) else disk s)\<rparr>,
      [if wr then MsgSaved else MsgSaveFailed, MsgAdded ttl])"
  by (simp add: add_task_def save_tasks_eq Let_def ordered_tasks_def deref_def)

lemma delete_task_found:
  assumes "tasks_dict s k = Some a"
  shows "delete_task wr k s =
     (s\<lparr>tasks_dict := (tasks_dict s)(k := None),
        tasks_list := filter (\<lambda>b. task_id (deref s b) \<noteq> k) (tasks_list s),
        disk := (if wr then Doc (JArr (map to_json (ordered_tasks
                   (s\<lparr>tasks_list := filter (\<lambda>b. task_id (deref s b) \<noteq> k) (tasks_list s)\<rparr>))))
                 else disk s)\<rparr>,
      [MsgDeleted (title (deref s a)), if wr then MsgSaved else MsgSaveFailed])"
  using assms
  by (simp add: delete_task_def save_tasks_eq Let_def ordered_tasks_def deref_def)

lemma ordered_tasks_add:
  assumes "refs_ok s"
  shows "ordered_tasks (fst (snd (add_task wr ttl prio now s))) =
         ordered_tasks s @ [\<lparr>task_id = next_id s, title = ttl,
                            priority = (case prio of None \<Rightarrow> prio_mid | Some p \<Rightarrow> p),
                            completed = False, created_at = now\<rparr>]"
  using assms
  by (simp add: add_task_eq ordered_tasks_def deref_def refs_ok_def list_all_iff nth_append)

lemma task_id_after_mark:
  "task_id (h[a := (h ! a)\<lparr>completed := True\<rparr>] ! b) = task_id (h ! b)"
  by (cases "a < length h") (simp_all add: nth_list_update list_update_beyond not_less)

lemma title_after_mark:
  "title (h[a := (h ! a)\<lparr>completed := True\<rparr>] ! b) = title (h ! b)"
  by (cases "a < length h") (simp_all add: nth_list_update list_update_beyond not_less)

lemma complete_task_fields:
  "tasks_list (fst (complete_task wr k s)) = tasks_list s"
  "tasks_dict (fst (complete_task wr k s)) = tasks_dict s"
  "next_id (fst (complete_task wr k s)) = next_id s"
  "length (heap (fst (complete_task wr k s))) = length (heap s)"
  "task_id (deref (fst (complete_task wr k s)) b) = task_id (deref s b)"
  "title (deref (fst (complete_task wr k s)) b) = title (deref s b)"
  by (cases "tasks_dict s k";
      simp add: complete_task_found complete_task_absent deref_def task_id_after_mark
        title_after_mark)+

lemma delete_task_fields:
  "heap (fst (delete_task wr k s)) = heap s"
  "next_id (fst (delete_task wr k s)) = next_id s"
  by (cases "tasks_dict s k"; simp add: delete_task_found delete_task_not_found)+

lemma delete_task_found_fields:
  assumes "tasks_dict s k = Some a"
  shows "tasks_list (fst (delete_task wr k s)) =
           filter (\<lambda>b. task_id (deref s b) \<noteq> k) (tasks_list s)"
    and "tasks_dict (fst (delete_task wr k s)) = (tasks_dict s)(k := None)"
    and "ordered_tasks (fst (delete_task wr k s)) =
           filter (\<lambda>t. task_id t \<noteq> k) (ordered_tasks s)"
  using assms
  by (simp_all add: delete_task_found ordered_tasks_def deref_def filter_map comp_def)

lemma add_task_fields:
  "heap (fst (snd (add_task wr ttl prio now s))) =
     heap s @ [\<lparr>task_id = next_id s, title = ttl,
                priority = (case prio of None \<Rightarrow> prio_mid | Some p \<Rightarrow> p),
                completed = False, created_at = now\<rparr>]"
  "tasks_list (fst (snd (add_task wr ttl prio now s))) = tasks_list s @ [length (heap s)]"
  "tasks_dict (fst (snd (add_task wr ttl prio now s))) =
     (tasks_dict s)(next_id s \<mapsto> length (heap s))"
  "next_id (fst (snd (add_task wr ttl prio now s))) = next_id s + 1"
  "fst (add_task wr ttl prio now s) = length (heap s)"
  by (simp_all add: add_task_eq)


lemma refs_ok_add: "refs_ok s \<Longrightarrow> refs_ok (fst (snd (add_task wr ttl prio now s)))"
  by (auto simp: refs_ok_def add_task_fields list_all_iff less_Suc_eq)

lemma refs_ok_complete: "refs_ok s \<Longrightarrow> refs_ok (fst (complete_task wr k s))"
  by (simp add: refs_ok_def complete_task_fields)

lemma refs_ok_delete: "refs_ok s \<Longrightarrow> refs_ok (fst (delete_task wr k s))"
  by (cases "tasks_dict s k")
     (auto simp: refs_ok_def delete_task_not_found delete_task_found_fields delete_task_fields
        list_all_iff)


lemma ids_after_complete:
  "map task_id (ordered_tasks (fst (complete_task wr k s))) = map task_id (ordered_tasks s)"
  by (simp add: ordered_tasks_def complete_task_fields)

lemma titles_after_complete:
  "map title (ordered_tasks (fst (complete_task wr k s))) = map title (ordered_tasks s)"
  by (simp add: ordered_tasks_def complete_task_fields)


lemma ids_below_iff: "ids_below s \<longleftrightarrow> (\<forall>i\<in>set (map task_id (ordered_tasks s)). i < next_id s)"
  by (auto simp: ids_below_def list_all_iff)

lemma ids_below_add:
  "refs_ok s \<Longrightarrow> ids_below s \<Longrightarrow> ids_below (fst (snd (add_task wr ttl prio now s)))"
  by (auto simp: ids_below_iff ordered_tasks_add add_task_fields)

lemma ids_below_complete: "ids_below s \<Longrightarrow> ids_below (fst (complete_task wr k s))"
  by (simp add: ids_below_iff ids_after_complete complete_task_fields)

lemma ids_below_delete: "ids_below s \<Longrightarrow> ids_below (fst (delete_task wr k s))"
  by (cases "tasks_dict s k")
     (auto simp: ids_below_iff delete_task_not_found delete_task_found_fields delete_task_fields)


lemma views_agree_add:
  assumes r: "refs_ok s" and v: "views_agree s" and b: "ids_below s"
  shows "views_agree (fst (snd (add_task wr ttl prio now s)))"
proof -
  let ?s' = "fst (snd (add_task wr ttl prio now s))"
  have fresh: "next_id s \<notin> set (map task_id (ordered_tasks s))"
    using b by (auto simp: ids_below_iff)
  have old: "deref ?s' a = deref s a" if "a < length (heap s)" for a
    using that by (simp add: deref_def add_task_fields nth_append)
  have new: "task_id (deref ?s' (length (heap s))) = next_id s"
    by (simp add: deref_def add_task_fields)
  have "dom (tasks_dict ?s') = set (map task_id (ordered_tasks ?s'))"
    using v by (simp add: views_agree_def add_task_fields ordered_tasks_add [OF r])
  moreover have "distinct (map task_id (ordered_tasks ?s'))"
    using v fresh by (simp add: views_agree_def ordered_tasks_add [OF r])
  moreover have "a \<in> set (tasks_list ?s') \<and> task_id (deref ?s' a) = k"
    if "tasks_dict ?s' k = Some a" for k a
  proof (cases "k = next_id s")
    case True
    then show ?thesis
      using that new by (simp add: add_task_fields)
  next
    case False
    then have "tasks_dict s k = Some a"
      using that by (simp add: add_task_fields)
    then have "a \<in> set (tasks_list s)" "task_id (deref s a) = k" "a < length (heap s)"
      using v r by (auto simp: views_agree_def refs_ok_def)
    then show ?thesis
      by (simp add: add_task_fields old)
  qed
  ultimately show ?thesis
    unfolding views_agree_def by blast
qed

lemma views_agree_complete:
  "views_agree s \<Longrightarrow> views_agree (fst (complete_task wr k s))"
  by (simp add: views_agree_def ids_after_complete complete_task_fields)

lemma views_agree_delete:
  assumes v: "views_agree s"
  shows "views_agree (fst (delete_task wr k s))"
proof (cases "tasks_dict s k")
  case None
  then show ?thesis
    using v by (simp add: delete_task_not_found)
next
  case (Some a)
  let ?s' = "fst (delete_task wr k s)"
  note f = delete_task_found_fields [OF Some, of wr]
  have "dom (tasks_dict ?s') = set (map task_id (ordered_tasks ?s'))"
    using v by (auto simp: views_agree_def f)
  moreover have "distinct (map task_id (ordered_tasks ?s'))"
    using v by (simp add: views_agree_def f distinct_map_filter)
  moreover have "b \<in> set (tasks_list ?s') \<and> task_id (deref ?s' b) = j"
    if "tasks_dict ?s' j = Some b" for j b
  proof -
    have "j \<noteq> k" "tasks_dict s j = Some b"
      using that by (auto simp: f split: if_splits)
    then have "b \<in> set (tasks_list s)" "task_id (deref s b) = j"
      using v by (auto simp: views_agree_def)
    then show ?thesis
      using \<open>j \<noteq> k\<close> by (simp add: f deref_def delete_task_fields)
  qed
  ultimately show ?thesis
    unfolding views_agree_def by blast
qed

lemma store_inv_same_ids:
  "store_inv s \<Longrightarrow>
     dom (tasks_dict s) = set (map task_id (ordered_tasks s)) \<and>
     distinct (map task_id (ordered_tasks s))"
  by (simp add: store_inv_def views_agree_def)

section \<open>Completing\<close>




section \<open>The two views stay consistent\<close>

text \<open>
  C3. On a store that satisfies the invariant (valid references, the two views in
  agreement, the next id above every id), each of \<open>add_task\<close>, \<open>complete_task\<close> and
  \<open>delete_task\<close>, with any arguments, yields a store that satisfies the invariant
  again; in particular the keys of the dictionary are exactly the ids of the list, and no
  id is twice in the list.
\<close>

theorem views_stay_consistent:
  assumes "store_inv s"
  shows "store_inv (fst (snd (add_task wr ttl prio now s))) \<and>
         store_inv (fst (complete_task wr' k s)) \<and>
         store_inv (fst (delete_task wr'' j s)) \<and>
         list_all
           (\<lambda>s'. dom (tasks_dict s') = set (map task_id (ordered_tasks s')) \<and>
                 distinct (map task_id (ordered_tasks s')))
           [fst (snd (add_task wr ttl prio now s)), fst (complete_task wr' k s),
            fst (delete_task wr'' j s)]"
proof -
  have a: "store_inv (fst (snd (add_task wr ttl prio now s)))"
    using assms by (simp add: store_inv_def refs_ok_add views_agree_add ids_below_add)
  have c: "store_inv (fst (complete_task wr' k s))"
    using assms
    by (simp add: store_inv_def refs_ok_complete views_agree_complete ids_below_complete)
  have d: "store_inv (fst (delete_task wr'' j s))"
    using assms by (simp add: store_inv_def refs_ok_delete views_agree_delete ids_below_delete)
  show ?thesis
    using a c d store_inv_same_ids [OF a] store_inv_same_ids [OF c] store_inv_same_ids [OF d]
    by simp
qed

theorem views_stay_consistent_witness:
  "store_inv ex_store \<and>
   store_inv (fst (snd (add_task True (ascii ''Water plants'') None
                          (ascii ''2025-01-02 09:00:00'') ex_store))) \<and>
   store_inv (fst (complete_task True 1 ex_store)) \<and>
   store_inv (fst (delete_task True 3 ex_store))"
proof -
  have h: "store_inv ex_store"
    by (auto simp: store_inv_def refs_ok_def views_agree_def ids_below_def ex_store_def
        ordered_tasks_def deref_def ex_milk_def ex_report_def ex_dentist_def
        split: if_splits)
  show ?thesis
    using h views_stay_consistent [OF h, of True "ascii ''Water plants''" None
        "ascii ''2025-01-02 09:00:00''" True 1 True 3]
    by simp
qed

section \<open>What loading yields\<close>

lemma as_task_SomeD:
  assumes "as_task x = Some t"
  shows "\<exists>kvs. x = JObj kvs \<and>
           obj_get kvs key_id = Some (JInt (task_id t)) \<and>
           obj_get kvs key_title = Some (JStr (title t)) \<and>
           obj_get kvs key_priority = Some (JStr (priority t)) \<and>
           obj_get kvs key_completed = Some (JBool (completed t)) \<and>
           obj_get kvs key_created_at = Some (JStr (created_at t))"
  using assms
  by (auto simp: as_task_def split: json.splits option.splits if_splits)

lemma id_of_item_as_task:
  "as_task x = Some t \<Longrightarrow> id_of_item x = Inr (JInt (task_id t))"
  by (auto dest!: as_task_SomeD simp: id_of_item_def)

lemma ids_of_items_as_tasks:
  "as_tasks xs = Some ts \<Longrightarrow> ids_of_items xs = Inr (map (\<lambda>t. JInt (task_id t)) ts)"
  by (induction xs arbitrary: ts)
     (auto simp: id_of_item_as_task split: option.splits)

lemma length_as_tasks: "as_tasks xs = Some ts \<Longrightarrow> length ts = length xs"
  by (induction xs arbitrary: ts) (auto split: option.splits)

lemma fold_max_bounds:
  "(y::int) \<le> fold max ys y \<and> (\<forall>x\<in>set ys. x \<le> fold max ys y)"
proof (induction ys arbitrary: y)
  case Nil
  show ?case by simp
next
  case (Cons z zs)
  have m: "max z y \<le> fold max zs (max z y)"
    and r: "\<forall>x\<in>set zs. x \<le> fold max zs (max z y)"
    using Cons.IH [of "max z y"] by blast+
  have "y \<le> fold max zs (max z y)"
    using m by linarith
  moreover have "z \<le> fold max zs (max z y)"
    using m by linarith
  ultimately show ?case
    using r by simp
qed

lemma fold_max_ge: "x \<in> set (y # ys) \<Longrightarrow> x \<le> fold max ys (y::int)"
  using fold_max_bounds [of y ys] by auto

lemma max_plus_one_ints:
  assumes "ts \<noteq> []"
  shows "\<exists>n. max_plus_one (map (\<lambda>t. JInt (task_id t)) ts) = Inr n \<and>
             (\<forall>t\<in>set ts. task_id t < n)"
proof -
  obtain t0 ts0 where ts: "ts = t0 # ts0"
    using assms by (cases ts) auto
  have all: "list_all (\<lambda>v. num_of v \<noteq> None) (map (\<lambda>t. JInt (task_id t)) ts)"
    by (simp add: list_all_iff num_of_def)
  have "\<forall>t\<in>set ts. task_id t \<le> fold max (map task_id ts0) (task_id t0)"
    using fold_max_ge [of _ "task_id t0" "map task_id ts0"] by (auto simp: ts)
  then show ?thesis
    using all by (auto simp: max_plus_one_def ts num_of_def comp_def)
qed

lemma index_tasks_range:
  "index_tasks d ts as k = Some a \<Longrightarrow> d k = Some a \<or> a \<in> set as"
  by (induction d ts as rule: index_tasks.induct) (auto split: if_splits)

lemma load_tasks_typed:
  assumes "disk s = Doc (JArr xs)" and "as_tasks xs = Some ts"
  shows "\<exists>n. load_tasks s =
           Returns (s\<lparr>heap := heap s @ ts,
                       tasks_list := [length (heap s) ..< length (heap s) + length ts],
                       tasks_dict := index_tasks (tasks_dict s) ts
                                       [length (heap s) ..< length (heap s) + length ts],
                       next_id := n\<rparr>,
                    [MsgLoaded (length ts)]) \<and>
           (\<forall>t\<in>set ts. task_id t < n) \<and> (ts = [] \<longrightarrow> n = next_id s)"
proof (cases "xs = []")
  case True
  then show ?thesis
    using assms by (simp add: load_tasks_def)
next
  case False
  then have "ts \<noteq> []"
    using length_as_tasks [OF assms(2)] by auto
  then obtain n where n: "max_plus_one (map (\<lambda>t. JInt (task_id t)) ts) = Inr n"
      "\<forall>t\<in>set ts. task_id t < n"
    using max_plus_one_ints by blast
  have "load_tasks s =
      Returns (s\<lparr>heap := heap s @ ts,
                  tasks_list := [length (heap s) ..< length (heap s) + length ts],
                  tasks_dict := index_tasks (tasks_dict s) ts
                                  [length (heap s) ..< length (heap s) + length ts],
                  next_id := n\<rparr>,
               [MsgLoaded (length ts)])"
    using assms False n(1) by (simp add: load_tasks_def ids_of_items_as_tasks Let_def)
  then show ?thesis
    using n(2) \<open>ts \<noteq> []\<close> by blast
qed

lemma map_nth_append_upt:
  "map ((!) (h @ ts)) [length h ..< length h + length ts] = ts"
proof -
  have "[length h ..< length h + length ts] = map (\<lambda>i. i + length h) [0 ..< length ts]"
    by (simp add: map_add_upt add.commute)
  then have "map ((!) (h @ ts)) [length h ..< length h + length ts] =
      map (\<lambda>i. ts ! i) [0 ..< length ts]"
    by (simp add: comp_def nth_append)
  then show ?thesis
    by (simp add: map_nth)
qed

lemma ordered_tasks_loaded:
  "ordered_tasks (s\<lparr>heap := heap s @ ts,
                    tasks_list := [length (heap s) ..< length (heap s) + length ts],
                    tasks_dict := d, next_id := n\<rparr>) = ts"
proof -
  have "deref (s\<lparr>heap := heap s @ ts,
                  tasks_list := [length (heap s) ..< length (heap s) + length ts],
                  tasks_dict := d, next_id := n\<rparr>) = (!) (heap s @ ts)"
    by (rule ext) (simp add: deref_def)
  then show ?thesis
    using map_nth_append_upt [of "heap s" ts] by (simp add: ordered_tasks_def)
qed

section \<open>Ids grow\<close>

lemma init_cases:
  "init Absent = Returns (ex_empty, [])"
  "init Unreadable = Returns (ex_empty\<lparr>disk := Unreadable\<rparr>, [MsgLoadFailed IOError])"
  "init NotJson = Returns (ex_empty\<lparr>disk := NotJson\<rparr>, [MsgLoadFailed JSONDecodeError])"
  by (simp_all add: init_def load_tasks_def ex_empty_def)

lemma load_tasks_Returns_Doc:
  assumes "load_tasks s = Returns (s', out)" and "disk s = Doc j"
  shows "\<exists>xs ts. j = JArr xs \<and> as_tasks xs = Some ts"
  using assms
  by (auto simp: load_tasks_def split: json.splits sum.splits option.splits if_splits)

lemma init_established:
  assumes "init d = Returns (s0, out)"
  shows "refs_ok s0 \<and> ids_below s0 \<and> (tasks_list s0 = [] \<longrightarrow> next_id s0 = 1)"
proof (cases d)
  case (Doc j)
  let ?e = "\<lparr>heap = [], tasks_list = [], tasks_dict = Map.empty, next_id = 1, disk = d\<rparr>"
  have l: "load_tasks ?e = Returns (s0, out)"
    using assms by (simp add: init_def)
  obtain xs ts where j: "j = JArr xs" and ts: "as_tasks xs = Some ts"
    using load_tasks_Returns_Doc [OF l] Doc by auto
  obtain n where n: "load_tasks ?e =
      Returns (?e\<lparr>heap := heap ?e @ ts,
                  tasks_list := [length (heap ?e) ..< length (heap ?e) + length ts],
                  tasks_dict := index_tasks (tasks_dict ?e) ts
                                  [length (heap ?e) ..< length (heap ?e) + length ts],
                  next_id := n\<rparr>,
               [MsgLoaded (length ts)])"
    and below: "\<forall>t\<in>set ts. task_id t < n" and empty: "ts = [] \<longrightarrow> n = next_id ?e"
    using load_tasks_typed [of ?e xs ts] Doc j ts by auto
  have s0: "s0 = ?e\<lparr>heap := heap ?e @ ts,
                  tasks_list := [length (heap ?e) ..< length (heap ?e) + length ts],
                  tasks_dict := index_tasks (tasks_dict ?e) ts
                                  [length (heap ?e) ..< length (heap ?e) + length ts],
                  next_id := n\<rparr>"
    using l n by simp
  have ord: "ordered_tasks s0 = ts"
    unfolding s0 by (rule ordered_tasks_loaded)
  have "refs_ok s0"
    by (auto simp: s0 refs_ok_def list_all_iff dest: index_tasks_range)
  moreover have "next_id s0 = n"
    by (simp add: s0)
  then have "ids_below s0"
    using below ord by (simp add: ids_below_def list_all_iff)
  moreover have "tasks_list s0 = [] \<longrightarrow> next_id s0 = 1"
    using empty by (simp add: s0)
  ultimately show ?thesis by simp
qed (use assms in \<open>auto simp: init_cases ex_empty_def refs_ok_def ids_below_def ordered_tasks_def\<close>)

lemma step_ids:
  assumes "refs_ok s" and "ids_below s" and "step x s = (s1, r)"
  shows "refs_ok s1 \<and> ids_below s1 \<and> next_id s \<le> next_id s1 \<and>
         (case r of None \<Rightarrow> True | Some i \<Rightarrow> i = next_id s \<and> next_id s1 = next_id s + 1)"
proof (cases x)
  case (Add wr ttl prio now)
  have s1: "s1 = fst (snd (add_task wr ttl prio now s))"
    and r: "r = Some (task_id (deref s1 (fst (add_task wr ttl prio now s))))"
    using assms(3) Add by (auto split: prod.splits)
  have "r = Some (next_id s)"
    unfolding r s1 by (simp add: add_task_fields deref_def)
  then show ?thesis
    using assms(1,2) by (simp add: s1 refs_ok_add ids_below_add add_task_fields)
next
  case (Complete wr k)
  then show ?thesis
    using assms by (auto simp: refs_ok_complete ids_below_complete complete_task_fields)
next
  case (Delete wr k)
  then show ?thesis
    using assms by (auto simp: refs_ok_delete ids_below_delete delete_task_fields)
qed

lemma steps_ids:
  assumes "refs_ok s" and "ids_below s" and "steps ops s = (s', ids)"
  shows "refs_ok s' \<and> ids_below s' \<and> next_id s \<le> next_id s' \<and> sorted_wrt (<) ids \<and>
         (\<forall>i\<in>set ids. next_id s \<le> i \<and> i < next_id s')"
  using assms
proof (induction ops arbitrary: s s' ids)
  case Nil
  then show ?case by simp
next
  case (Cons x xs)
  obtain s1 r where x: "step x s = (s1, r)"
    by (cases "step x s")
  obtain s2 ids2 where xs: "steps xs s1 = (s2, ids2)"
    by (cases "steps xs s1")
  have s': "s' = s2" and ids: "ids = (case r of None \<Rightarrow> ids2 | Some i \<Rightarrow> i # ids2)"
    using Cons.prems(3) x xs by simp_all
  note one = step_ids [OF Cons.prems(1,2) x]
  then have rest: "refs_ok s2 \<and> ids_below s2 \<and> next_id s1 \<le> next_id s2 \<and>
      sorted_wrt (<) ids2 \<and> (\<forall>i\<in>set ids2. next_id s1 \<le> i \<and> i < next_id s2)"
    using Cons.IH [OF _ _ xs] by simp
  show ?case
  proof (cases r)
    case None
    then show ?thesis
      using one rest by (auto simp: s' ids)
  next
    case (Some i)
    then have "i = next_id s" "next_id s1 = next_id s + 1"
      using one by simp_all
    then show ?thesis
      using one rest Some by (fastforce simp: s' ids)
  qed
qed

text \<open>
  C4. A store constructed by \<open>__init__\<close> has valid references and a next id greater
  than every id it holds, and the next id is 1 when it holds no task. From any store with
  these two properties, through any sequence of \<open>add_task\<close>, \<open>complete_task\<close> and
  \<open>delete_task\<close>: the ids of the tasks that the calls of \<open>add_task\<close> return are
  strictly increasing, each one is greater than every id of a task of the starting store
  and below the final next id, and after every prefix of the sequence the next id is
  greater than every id of a task of the store.
\<close>

theorem ids_increase:
  "(init d = Returns (s0, out) \<longrightarrow>
      refs_ok s0 \<and> ids_below s0 \<and> (tasks_list s0 = [] \<longrightarrow> next_id s0 = 1)) \<and>
   (refs_ok s \<and> ids_below s \<and> steps ops s = (s', ids) \<longrightarrow>
      sorted_wrt (<) ids \<and>
      list_all (\<lambda>i. list_all (\<lambda>t. task_id t < i) (ordered_tasks s)) ids \<and>
      list_all (\<lambda>i. i < next_id s') ids \<and>
      (\<forall>n. ids_below (fst (steps (take n ops) s))))"
proof -
  have construction: "init d = Returns (s0, out) \<longrightarrow>
      refs_ok s0 \<and> ids_below s0 \<and> (tasks_list s0 = [] \<longrightarrow> next_id s0 = 1)"
    using init_established by blast
  have run: "sorted_wrt (<) ids \<and>
      list_all (\<lambda>i. list_all (\<lambda>t. task_id t < i) (ordered_tasks s)) ids \<and>
      list_all (\<lambda>i. i < next_id s') ids \<and>
      (\<forall>n. ids_below (fst (steps (take n ops) s)))"
    if h: "refs_ok s \<and> ids_below s \<and> steps ops s = (s', ids)"
  proof -
    have m: "sorted_wrt (<) ids \<and> (\<forall>i\<in>set ids. next_id s \<le> i \<and> i < next_id s')"
      using h steps_ids [of s ops s' ids] by simp
    have "list_all (\<lambda>i. list_all (\<lambda>t. task_id t < i) (ordered_tasks s)) ids"
      using h m by (fastforce simp: list_all_iff ids_below_def)
    moreover have "list_all (\<lambda>i. i < next_id s') ids"
      using m by (simp add: list_all_iff)
    moreover have "ids_below (fst (steps (take n ops) s))" for n
    proof -
      obtain s2 ids2 where "steps (take n ops) s = (s2, ids2)"
        by (cases "steps (take n ops) s")
      then show ?thesis
        using steps_ids [of s "take n ops" s2 ids2] h by simp
    qed
    ultimately show ?thesis
      using m by simp
  qed
  show ?thesis
    using construction run by blast
qed

theorem ids_increase_witness:
  "init Absent = Returns (ex_empty, []) \<and> refs_ok ex_empty \<and> ids_below ex_empty \<and>
   next_id ex_empty = 1 \<and>
   refs_ok ex_store \<and> ids_below ex_store \<and>
   snd (steps ex_ops ex_store) = [4, 5] \<and>
   sorted_wrt (<) (snd (steps ex_ops ex_store)) \<and>
   list_all (\<lambda>i. i < next_id (fst (steps ex_ops ex_store))) (snd (steps ex_ops ex_store))"
proof -
  have i: "init Absent = Returns (ex_empty, [])"
    by (simp add: init_def load_tasks_def ex_empty_def)
  have h: "refs_ok ex_store \<and> ids_below ex_store \<and>
      steps ex_ops ex_store = (fst (steps ex_ops ex_store), snd (steps ex_ops ex_store))"
    by (simp add: refs_ok_def ids_below_def ex_store_def ordered_tasks_def deref_def
        ex_milk_def ex_report_def ex_dentist_def)
  have v: "snd (steps ex_ops ex_store) = [4, 5]"
    by (simp add: ex_ops_def ex_store_def add_task_def delete_task_def complete_task_def
        find_task_by_id_def save_tasks_def Let_def deref_def ordered_tasks_def)
  have e: "next_id ex_empty = 1"
    by (simp add: ex_empty_def)
  show ?thesis
    using i h v e
      ids_increase [of Absent ex_empty "[]" ex_store ex_ops "fst (steps ex_ops ex_store)"
        "snd (steps ex_ops ex_store)"]
    by simp
qed

section \<open>Saving and loading again\<close>

lemma keys_distinct:
  "distinct [key_id, key_title, key_priority, key_completed, key_created_at]"
  by (simp add: key_id_def key_title_def key_priority_def key_completed_def
      key_created_at_def ascii_def)

lemma obj_get_to_json:
  "obj_get [(key_id, a), (key_title, b), (key_priority, c), (key_completed, d),
            (key_created_at, e)] k =
     (if k = key_created_at then Some e else if k = key_completed then Some d
      else if k = key_priority then Some c else if k = key_title then Some b
      else if k = key_id then Some a else None)"
  by (simp add: obj_get_def)






section \<open>Loading a file that cannot be read\<close>





section \<open>Empty titles\<close>

lemma saved_titles_ok_to_json:
  "saved_titles_ok (Doc (JArr (map to_json ts))) = list_all (\<lambda>t. title t \<noteq> []) ts"
  using keys_distinct
  by (simp add: saved_titles_ok_def to_json_def obj_get_to_json list_all_iff)

lemma disk_after_add:
  "disk (fst (snd (add_task wr ttl prio now s))) =
     (if wr then Doc (JArr (map to_json (ordered_tasks (fst (snd (add_task wr ttl prio now s))))))
      else disk s)"
  by (simp add: add_task_def save_tasks_eq Let_def)

lemma disk_after_complete:
  "disk (fst (complete_task wr k s)) =
     (if wr \<and> tasks_dict s k \<noteq> None
      then Doc (JArr (map to_json (ordered_tasks (fst (complete_task wr k s)))))
      else disk s)"
  by (cases "tasks_dict s k") (simp_all add: complete_task_found complete_task_absent)

lemma disk_after_delete:
  "disk (fst (delete_task wr k s)) =
     (if wr \<and> tasks_dict s k \<noteq> None
      then Doc (JArr (map to_json (ordered_tasks (fst (delete_task wr k s)))))
      else disk s)"
  by (cases "tasks_dict s k")
     (simp_all add: delete_task_def save_tasks_eq Let_def)

lemma titles_ok_add:
  "refs_ok s \<Longrightarrow> titles_ok s \<Longrightarrow> ttl \<noteq> [] \<Longrightarrow>
     titles_ok (fst (snd (add_task wr ttl prio now s)))"
  by (simp add: titles_ok_def ordered_tasks_add)

lemma titles_ok_complete: "titles_ok s \<Longrightarrow> titles_ok (fst (complete_task wr k s))"
proof -
  have "titles_ok s' \<longleftrightarrow> (\<forall>x\<in>set (map title (ordered_tasks s')). x \<noteq> [])" for s'
    by (auto simp: titles_ok_def list_all_iff)
  then show "titles_ok s \<Longrightarrow> titles_ok (fst (complete_task wr k s))"
    by (simp only: titles_after_complete)
qed

lemma titles_ok_delete: "titles_ok s \<Longrightarrow> titles_ok (fst (delete_task wr k s))"
  by (cases "tasks_dict s k")
     (auto simp: titles_ok_def delete_task_not_found delete_task_found_fields list_all_iff)

lemma clean_add:
  "refs_ok s \<Longrightarrow> clean s \<Longrightarrow> ttl \<noteq> [] \<Longrightarrow> clean (fst (snd (add_task wr ttl prio now s)))"
  using titles_ok_add [of s ttl wr prio now]
  by (cases wr)
     (simp_all add: clean_def disk_after_add saved_titles_ok_to_json titles_ok_def)

lemma clean_complete: "clean s \<Longrightarrow> clean (fst (complete_task wr k s))"
  using titles_ok_complete [of s wr k]
  by (cases wr)
     (simp_all add: clean_def disk_after_complete saved_titles_ok_to_json titles_ok_def)

lemma clean_delete: "clean s \<Longrightarrow> clean (fst (delete_task wr k s))"
  using titles_ok_delete [of s wr k]
  by (cases wr)
     (simp_all add: clean_def disk_after_delete saved_titles_ok_to_json titles_ok_def)

lemma menu_add_cases:
  "menu_add wr line1 line2 now s =
     (if strip line1 = [] then (s, [MsgTitleEmpty])
      else if \<not> allowed (if strip line2 = [] then prio_mid else strip line2)
           then (s, [MsgBadPriority])
      else (fst (snd (add_task wr (strip line1)
                        (Some (if strip line2 = [] then prio_mid else strip line2)) now s)),
            snd (snd (add_task wr (strip line1)
                        (Some (if strip line2 = [] then prio_mid else strip line2)) now s))))"
  by (auto simp: menu_add_def Let_def allowed_def split: prod.splits)

text \<open>
  C9. As stated the claim fails: \<open>add_task\<close> does not look at the title. Called with the
  empty string on the empty store, it stores and saves a task whose title is empty.
\<close>

theorem add_task_empty_title_counterexample:
  "titles_ok ex_empty \<and>
   ordered_tasks (fst (snd (add_task True [] None (ascii ''2025-01-02 09:00:00'') ex_empty))) =
     [\<lparr>task_id = 1, title = [], priority = prio_mid, completed = False,
       created_at = ascii ''2025-01-02 09:00:00''\<rparr>] \<and>
   \<not> titles_ok (fst (snd (add_task True [] None (ascii ''2025-01-02 09:00:00'') ex_empty))) \<and>
   \<not> saved_titles_ok
        (disk (fst (snd (add_task True [] None (ascii ''2025-01-02 09:00:00'') ex_empty))))"
  using keys_distinct
  by (simp add: titles_ok_def ex_empty_def add_task_def save_tasks_def Let_def
      ordered_tasks_def deref_def saved_titles_ok_def to_json_def obj_get_to_json)

text \<open>
  C9, amended. The check is in the menu: choice 1 of \<open>run\<close> rejects a title that is
  empty after \<open>strip()\<close> before calling \<open>add_task\<close>, and returns the store as it was.
  From a store with valid references in which no task, in memory or in the file, has an
  empty title, adding through the menu, completing and deleting lead to such a store
  again.
\<close>

theorem menu_rejects_empty_title:
  "(strip line1 = [] \<longrightarrow> menu_add wr line1 line2 now s = (s, [MsgTitleEmpty])) \<and>
   (refs_ok s \<and> clean s \<longrightarrow>
      clean (fst (menu_add wr line1 line2 now s)) \<and>
      clean (fst (complete_task wr' k s)) \<and>
      clean (fst (delete_task wr'' j s)))"
  by (simp add: menu_add_cases clean_add clean_complete clean_delete)

theorem menu_rejects_empty_title_witness:
  "strip (ascii ''   '') = [] \<and>
   menu_add True (ascii ''   '') (ascii ''x'') (ascii ''2025-01-02 09:00:00'') ex_store =
     (ex_store, [MsgTitleEmpty]) \<and>
   refs_ok ex_store \<and> clean ex_store \<and>
   clean (fst (menu_add True (ascii '' Water plants '') [] (ascii ''2025-01-02 09:00:00'')
                 ex_store))"
proof -
  have e: "strip (ascii ''   '') = []"
    by (simp add: strip_def ascii_def isspace_def)
  have h: "refs_ok ex_store \<and> clean ex_store"
    by (simp add: refs_ok_def clean_def titles_ok_def saved_titles_ok_def ex_store_def
        ordered_tasks_def deref_def ex_milk_def ex_report_def ex_dentist_def ascii_def)
  show ?thesis
    using e h
      menu_rejects_empty_title [of "ascii ''   ''" True "ascii ''x''"
        "ascii ''2025-01-02 09:00:00''" ex_store True 1 True 1]
      menu_rejects_empty_title [of "ascii '' Water plants ''" True "[]"
        "ascii ''2025-01-02 09:00:00''" ex_store True 1 True 1]
    by simp
qed

end
